theory Spec2Isabelle
  imports Complex_Main "HOL-Library.Word"
begin

section \<open>Propagation model\<close>

text \<open>
  \<^verbatim>\<open>CalculateRssi\<close> of \<^verbatim>\<open>wifi-roaming-v4.cc\<close> (lines 25-52) and of
  \<^verbatim>\<open>roaming-saturation.cc\<close> (lines 33-52). A C++ \<^verbatim>\<open>double\<close> is embedded as the real
  number it denotes and \<^verbatim>\<open>std::sqrt\<close>, \<^verbatim>\<open>std::pow\<close>, \<^verbatim>\<open>std::log10\<close> as the exact
  functions; rounding of the floating-point operations is not modelled. The two arguments
  are the positions that \<^verbatim>\<open>GetPosition()\<close> returns for the two mobility models.
\<close>

datatype Vector = Vector real real real

text \<open>Lines 55-61 of \<^verbatim>\<open>wifi-roaming-v4.cc\<close>.\<close>

fun CalculateDistance :: "Vector \<Rightarrow> Vector \<Rightarrow> real" where
  "CalculateDistance (Vector ax ay az) (Vector bx by bz) =
     (let dx = bx - ax; dy = by - ay; dz = bz - az
      in sqrt (dx * dx + dy * dy + dz * dz))"

text \<open>The four local constants of \<^verbatim>\<open>CalculateRssi\<close>, the same in both files.\<close>

definition txPowerDbm :: real where
  "txPowerDbm = 16.0"

definition exponent :: real where
  "exponent = 3.0"

definition referenceDistance :: real where
  "referenceDistance = 1.0"

definition referenceLoss :: real where
  "referenceLoss = 46.6777"

text \<open>Lines 40-51 of \<^verbatim>\<open>wifi-roaming-v4.cc\<close>: the path loss and the result, from the distance.\<close>

definition rssiOfDistance :: "real \<Rightarrow> real" where
  "rssiOfDistance distance =
     (let pathLossDb =
        (if distance \<le> referenceDistance then referenceLoss
         else referenceLoss + 10 * exponent * log 10 (distance / referenceDistance))
      in txPowerDbm - pathLossDb)"

text \<open>\<^verbatim>\<open>wifi-roaming-v4.cc\<close>: the distance comes from \<^verbatim>\<open>CalculateDistance\<close>.\<close>

definition CalculateRssi :: "Vector \<Rightarrow> Vector \<Rightarrow> real" where
  "CalculateRssi txPosition rxPosition =
     rssiOfDistance (CalculateDistance txPosition rxPosition)"

text \<open>
  \<^verbatim>\<open>roaming-saturation.cc\<close>: the distance is computed in place, with \<^verbatim>\<open>std::pow(_, 2)\<close>
  on the differences taken the other way round.
\<close>

fun CalculateRssi_saturation :: "Vector \<Rightarrow> Vector \<Rightarrow> real" where
  "CalculateRssi_saturation (Vector tx ty tz) (Vector rx ry rz) =
     rssiOfDistance (sqrt ((tx - rx)\<^sup>2 + (ty - ry)\<^sup>2 + (tz - rz)\<^sup>2))"

section \<open>Text written by the stream insertions\<close>

text \<open>
  The log files are \<^verbatim>\<open>std::ofstream\<close>s; a file is modelled by the characters inserted
  into it so far. The insertions of the C++ library and of the simulation engine are
  modelled as they are documented, in the classic locale and with the stream's default
  flags: an unsigned integer in decimal, a \<^verbatim>\<open>double\<close> with six significant digits in the
  style of \<^verbatim>\<open>printf("%g")\<close>, a \<^verbatim>\<open>Mac48Address\<close> as six two-digit lower-case hexadecimal
  bytes separated by colons, an \<^verbatim>\<open>Ipv4Address\<close> as four decimal bytes separated by dots,
  and \<^verbatim>\<open>std::endl\<close> as a newline.
\<close>

definition endl :: string where
  "endl = [CHR 0x0A]"

definition digit_char :: "nat \<Rightarrow> char" where
  "digit_char d = ''0123456789abcdef'' ! d"

text \<open>\<^verbatim>\<open>os << n\<close> for \<^verbatim>\<open>uint32_t\<close> and \<^verbatim>\<open>uint64_t\<close>: the decimal digits.\<close>

fun show_nat :: "nat \<Rightarrow> string" where
  "show_nat n =
     (if n < 10 then [digit_char n] else show_nat (n div 10) @ [digit_char (n mod 10)])"

declare show_nat.simps [simp del]

text \<open>
  \<^verbatim>\<open>os << v\<close> for a \<^verbatim>\<open>double\<close> \<open>v\<close>, embedded as the real number it denotes. The value is
  rounded to six significant decimal digits, ties to even; with \<open>X\<close> the decimal exponent
  of the rounded value, fixed notation is used when \<open>-4 \<le> X < 6\<close> and scientific notation
  (exponent of at least two digits) otherwise, and trailing zeros of the fraction are
  removed together with a decimal point that nothing follows.
\<close>

definition round_half_even :: "real \<Rightarrow> int" where
  "round_half_even v =
     (let f = \<lfloor>v\<rfloor>; d = v - of_int f
      in if d < 1 / 2 then f else if 1 / 2 < d then f + 1 else if even f then f else f + 1)"

definition sig6 :: "real \<Rightarrow> int \<times> int" where
  "sig6 a =
     (let e = \<lfloor>log 10 a\<rfloor>; m = round_half_even (a * 10 powi (5 - e))
      in if m = 1000000 then (100000, e + 1) else (m, e))"

definition strip_zeros :: "string \<Rightarrow> string" where
  "strip_zeros s = rev (dropWhile (\<lambda>c. c = CHR ''0'') (rev s))"

definition with_point :: "string \<Rightarrow> string \<Rightarrow> string" where
  "with_point ip fp = (let f = strip_zeros fp in if f = [] then ip else ip @ ''.'' @ f)"

definition showMagnitude :: "real \<Rightarrow> string" where
  "showMagnitude a =
     (let (m, X) = sig6 a; ds = show_nat (nat m)
      in if - 4 \<le> X \<and> X < 6
         then (if 0 \<le> X then with_point (take (nat X + 1) ds) (drop (nat X + 1) ds)
               else with_point ''0'' (replicate (nat (- X - 1)) (CHR ''0'') @ ds))
         else with_point (take 1 ds) (drop 1 ds) @ ''e'' @ (if X < 0 then ''-'' else ''+'')
              @ (let x = show_nat (nat \<bar>X\<bar>) in if length x < 2 then ''0'' @ x else x))"

definition showDouble :: "real \<Rightarrow> string" where
  "showDouble v =
     (if v = 0 then ''0'' else if v < 0 then ''-'' @ showMagnitude (- v) else showMagnitude v)"

text \<open>The engine's \<^verbatim>\<open>Mac48Address\<close>: six bytes, compared byte by byte.\<close>

datatype Mac48Address = Mac48Address "8 word" "8 word" "8 word" "8 word" "8 word" "8 word"

definition hex2 :: "8 word \<Rightarrow> string" where
  "hex2 b = [digit_char (unat b div 16), digit_char (unat b mod 16)]"

fun showMac :: "Mac48Address \<Rightarrow> string" where
  "showMac (Mac48Address a b c d e f) =
     hex2 a @ '':'' @ hex2 b @ '':'' @ hex2 c @ '':'' @ hex2 d @ '':'' @ hex2 e @ '':'' @ hex2 f"

text \<open>
  \<^verbatim>\<open>MacToString\<close> of \<^verbatim>\<open>roaming-saturation.cc\<close> (lines 26-30) inserts the address into a
  string stream and returns its text.
\<close>

definition MacToString :: "Mac48Address \<Rightarrow> string" where
  "MacToString addr = showMac addr"

text \<open>The engine's \<^verbatim>\<open>Ipv4Address\<close>: a 32-bit value, most significant byte first.\<close>

definition showIpv4 :: "32 word \<Rightarrow> string" where
  "showIpv4 a =
     show_nat (unat a div 16777216 mod 256) @ ''.'' @ show_nat (unat a div 65536 mod 256) @ ''.''
     @ show_nat (unat a div 256 mod 256) @ ''.'' @ show_nat (unat a mod 256)"

section \<open>Reading a written file\<close>

text \<open>
  What the statements below mean by the rows of a file and the comma-separated fields
  of a row: a row is a line ended by a newline, and its fields are the pieces between
  its commas (so a row without a comma has one field, and two commas in a row, or a comma
  at its end, delimit an empty field).
\<close>

primrec split_at :: "char \<Rightarrow> string \<Rightarrow> string list" where
  "split_at c [] = [[]]"
| "split_at c (x # xs) =
     (if x = c then [] # split_at c xs
      else (case split_at c xs of [] \<Rightarrow> [[x]] | f # fs \<Rightarrow> (x # f) # fs))"

definition fields_of :: "string \<Rightarrow> string list" where
  "fields_of line = split_at (CHR '','') line"

definition lines_of :: "string \<Rightarrow> string list" where
  "lines_of file = butlast (split_at (CHR 0x0A) file)"

definition csv_rows :: "string \<Rightarrow> string list list" where
  "csv_rows file = map fields_of (lines_of file)"

definition complete_lines :: "string \<Rightarrow> bool" where
  "complete_lines file = (file = [] \<or> last file = CHR 0x0A)"

text \<open>
  A field is plain when it holds neither a comma nor a newline, and a row is well formed
  when it has at least one field and all its fields are plain. \<open>csv_line\<close> is the text of
  a row: its fields joined by commas, ended by a newline.
\<close>

definition plain :: "string \<Rightarrow> bool" where
  "plain s = (CHR '','' \<notin> set s \<and> CHR 0x0A \<notin> set s)"

definition well_formed :: "string list \<Rightarrow> bool" where
  "well_formed row = (row \<noteq> [] \<and> list_all plain row)"

fun join_commas :: "string list \<Rightarrow> string" where
  "join_commas [] = []"
| "join_commas [f] = f"
| "join_commas (f # g # fs) = f @ '','' @ join_commas (g # fs)"

definition csv_line :: "string list \<Rightarrow> string" where
  "csv_line row = join_commas row @ endl"

section \<open>Association tracker\<close>

subsection \<open>The station id of a callback context\<close>

text \<open>
  Both callbacks start with the same four lines (lines 100-103 and 133-136 of
  \<^verbatim>\<open>wifi-roaming-v4.cc\<close>), which read the station id off the context path.
  \<^verbatim>\<open>std::string::size_type\<close> is taken to be 64 bits wide; \<^verbatim>\<open>npos\<close> is its largest value,
  and \<^verbatim>\<open>start + 10\<close> wraps around as the unsigned addition does. The exceptions of
  \<^verbatim>\<open>substr\<close> and \<^verbatim>\<open>std::stoi\<close> are not caught anywhere: they end the run.
\<close>

datatype error = out_of_range | invalid_argument

definition npos :: "64 word" where
  "npos = - 1"

fun find_first :: "string \<Rightarrow> string \<Rightarrow> nat \<Rightarrow> nat option" where
  "find_first pat [] i = (if pat = [] then Some i else None)"
| "find_first pat (c # cs) i =
     (if take (length pat) (c # cs) = pat then Some i else find_first pat cs (Suc i))"

text \<open>\<^verbatim>\<open>s.find(pat, pos)\<close>.\<close>

definition string_find :: "string \<Rightarrow> string \<Rightarrow> 64 word \<Rightarrow> 64 word" where
  "string_find s pat pos =
     (if length s < unat pos then npos
      else case find_first pat (drop (unat pos) s) (unat pos) of
             None \<Rightarrow> npos
           | Some i \<Rightarrow> word_of_nat i)"

text \<open>\<^verbatim>\<open>s.substr(pos, n)\<close>.\<close>

definition substr :: "string \<Rightarrow> 64 word \<Rightarrow> 64 word \<Rightarrow> error + string" where
  "substr s pos n =
     (if length s < unat pos then Inl out_of_range
      else Inr (take (unat n) (drop (unat pos) s)))"

definition isspace :: "char \<Rightarrow> bool" where
  "isspace c = (c \<in> set [CHR '' '', CHR 0x09, CHR 0x0A, CHR 0x0B, CHR 0x0C, CHR 0x0D])"

definition isdigit :: "char \<Rightarrow> bool" where
  "isdigit c = (48 \<le> (of_char c :: nat) \<and> (of_char c :: nat) \<le> 57)"

definition digit_value :: "char \<Rightarrow> nat" where
  "digit_value c = of_char c - 48"

definition decimal_value :: "string \<Rightarrow> nat" where
  "decimal_value ds = foldl (\<lambda>acc c. 10 * acc + digit_value c) 0 ds"

text \<open>
  \<^verbatim>\<open>std::stoi(str)\<close>: leading white space is skipped, a sign is accepted, the longest run
  of decimal digits is converted and what follows it is ignored.
\<close>

definition stoi :: "string \<Rightarrow> error + int" where
  "stoi str =
     (let s1 = dropWhile isspace str;
          neg = (s1 \<noteq> [] \<and> hd s1 = CHR ''-'');
          s2 = (if s1 \<noteq> [] \<and> (hd s1 = CHR ''-'' \<or> hd s1 = CHR ''+'') then tl s1 else s1);
          ds = takeWhile isdigit s2
      in if ds = [] then Inl invalid_argument
         else let v = (if neg then - int (decimal_value ds) else int (decimal_value ds))
              in if v < - 2147483648 \<or> 2147483647 < v then Inl out_of_range else Inr v)"

definition nodeIdOfContext :: "string \<Rightarrow> error + 32 word" where
  "nodeIdOfContext context =
     (let start = string_find context ''/NodeList/'' 0;
          end' = string_find context ''/Device'' start
      in case substr context (start + 10) (end' - (start + 10)) of
           Inl e \<Rightarrow> Inl e
         | Inr nodeIdStr \<Rightarrow>
             (case stoi nodeIdStr of
                Inl e \<Rightarrow> Inl e
              | Inr v \<Rightarrow> Inr (word_of_int v)))"

subsection \<open>The callbacks\<close>

text \<open>
  The three globals the callbacks touch (lines 19-22 of \<^verbatim>\<open>wifi-roaming-v4.cc\<close>):
  the event log, the counter, and the map from station id to the last access point.
  The console narration of the callbacks reads the same values and changes none of them;
  it is left out.
\<close>

record tracker =
  handoverFile :: string
  handoverCount :: "32 word"
  currentAp :: "32 word \<Rightarrow> Mac48Address option"

text \<open>
  \<^verbatim>\<open>AssociationCallback\<close> (lines 97-127 of \<^verbatim>\<open>wifi-roaming-v4.cc\<close>, lines 77-103 of
  \<^verbatim>\<open>roaming-saturation.cc\<close>). \<open>currentTime\<close> is the value of
  \<^verbatim>\<open>Simulator::Now().GetSeconds()\<close> at the call.
\<close>

definition AssociationCallback ::
  "string \<Rightarrow> Mac48Address \<Rightarrow> real \<Rightarrow> tracker \<Rightarrow> error + tracker" where
  "AssociationCallback context apAddr currentTime st =
     (case nodeIdOfContext context of
        Inl e \<Rightarrow> Inl e
      | Inr nodeId \<Rightarrow>
          let st1 =
                (case currentAp st nodeId of
                   Some previous \<Rightarrow>
                     if previous \<noteq> apAddr
                     then st\<lparr>handoverCount := handoverCount st + 1,
                             handoverFile := handoverFile st @ showDouble currentTime
                               @ '',HANDOVER,'' @ show_nat (unat nodeId) @ '','' @ showMac previous
                               @ '','' @ showMac apAddr @ endl\<rparr>
                     else st
                 | None \<Rightarrow> st);
              st2 = st1\<lparr>currentAp := (currentAp st1)(nodeId \<mapsto> apAddr)\<rparr>
          in Inr (st2\<lparr>handoverFile := handoverFile st2 @ showDouble currentTime
                        @ '',ASSOC,'' @ show_nat (unat nodeId) @ '','' @ showMac apAddr @ endl\<rparr>))"

text \<open>
  \<^verbatim>\<open>DisassociationCallback\<close> (lines 130-145 of \<^verbatim>\<open>wifi-roaming-v4.cc\<close>, lines 106-117 of
  \<^verbatim>\<open>roaming-saturation.cc\<close>).
\<close>

definition DisassociationCallback ::
  "string \<Rightarrow> Mac48Address \<Rightarrow> real \<Rightarrow> tracker \<Rightarrow> error + tracker" where
  "DisassociationCallback context apAddr currentTime st =
     (case nodeIdOfContext context of
        Inl e \<Rightarrow> Inl e
      | Inr nodeId \<Rightarrow>
          Inr (st\<lparr>handoverFile := handoverFile st @ showDouble currentTime
                    @ '',DEASSOC,'' @ show_nat (unat nodeId) @ '','' @ showMac apAddr @ endl\<rparr>))"

text \<open>
  The two callbacks of \<^verbatim>\<open>roaming-saturation.cc\<close> insert the text of \<^verbatim>\<open>MacToString\<close> where
  those of \<^verbatim>\<open>wifi-roaming-v4.cc\<close> insert the address; their branch for a reassociation
  (lines 96-100) only writes to the console.
\<close>

definition AssociationCallback_saturation ::
  "string \<Rightarrow> Mac48Address \<Rightarrow> real \<Rightarrow> tracker \<Rightarrow> error + tracker" where
  "AssociationCallback_saturation context apAddr currentTime st =
     (case nodeIdOfContext context of
        Inl e \<Rightarrow> Inl e
      | Inr nodeId \<Rightarrow>
          let st1 =
                (case currentAp st nodeId of
                   Some previous \<Rightarrow>
                     if previous \<noteq> apAddr
                     then st\<lparr>handoverCount := handoverCount st + 1,
                             handoverFile := handoverFile st @ showDouble currentTime
                               @ '',HANDOVER,'' @ show_nat (unat nodeId) @ '',''
                               @ MacToString previous @ '','' @ MacToString apAddr @ endl\<rparr>
                     else st
                 | None \<Rightarrow> st);
              st2 = st1\<lparr>currentAp := (currentAp st1)(nodeId \<mapsto> apAddr)\<rparr>
          in Inr (st2\<lparr>handoverFile := handoverFile st2 @ showDouble currentTime
                        @ '',ASSOC,'' @ show_nat (unat nodeId) @ '','' @ MacToString apAddr @ endl\<rparr>))"

definition DisassociationCallback_saturation ::
  "string \<Rightarrow> Mac48Address \<Rightarrow> real \<Rightarrow> tracker \<Rightarrow> error + tracker" where
  "DisassociationCallback_saturation context apAddr currentTime st =
     (case nodeIdOfContext context of
        Inl e \<Rightarrow> Inl e
      | Inr nodeId \<Rightarrow>
          Inr (st\<lparr>handoverFile := handoverFile st @ showDouble currentTime
                    @ '',DEASSOC,'' @ show_nat (unat nodeId) @ '','' @ MacToString apAddr @ endl\<rparr>))"

text \<open>
  The state when the callbacks are connected (lines 324-325): the log holds its header
  line, the counter is zero and the map is empty.
\<close>

definition initial :: tracker where
  "initial =
     \<lparr>handoverFile = ''Time,EventType,StationID,AccessPoint1,AccessPoint2'' @ endl,
      handoverCount = 0,
      currentAp = Map.empty\<rparr>"

text \<open>
  A run of the simulation delivers a sequence of calls of the two callbacks, each with
  its context, its access point and the time of the call.
\<close>

datatype event = Assoc string Mac48Address real | DeAssoc string Mac48Address real

fun deliver :: "event \<Rightarrow> tracker \<Rightarrow> error + tracker" where
  "deliver (Assoc context apAddr currentTime) st = AssociationCallback context apAddr currentTime st"
| "deliver (DeAssoc context apAddr currentTime) st = DisassociationCallback context apAddr currentTime st"

fun run :: "event list \<Rightarrow> tracker \<Rightarrow> error + tracker" where
  "run [] st = Inr st"
| "run (e # es) st = (case deliver e st of Inl err \<Rightarrow> Inl err | Inr st' \<Rightarrow> run es st')"

text \<open>Whether an event is an association of station \<open>s\<close>.\<close>

fun associates :: "32 word \<Rightarrow> event \<Rightarrow> bool" where
  "associates s (Assoc context apAddr currentTime) = (nodeIdOfContext context = Inr s)"
| "associates s (DeAssoc context apAddr currentTime) = False"

text \<open>
  What the log keeps of an event: its kind, the text of its time, its station and its
  access point.
\<close>

fun logged :: "event \<Rightarrow> string \<times> string \<times> (error + 32 word) \<times> Mac48Address" where
  "logged (Assoc context apAddr currentTime) =
     (''ASSOC'', showDouble currentTime, nodeIdOfContext context, apAddr)"
| "logged (DeAssoc context apAddr currentTime) =
     (''DEASSOC'', showDouble currentTime, nodeIdOfContext context, apAddr)"

text \<open>
  The rows of the event log, as lists of fields: the header written at line 325 and the
  three kinds of rows the callbacks write.
\<close>

definition header_row :: "string list" where
  "header_row = [''Time'', ''EventType'', ''StationID'', ''AccessPoint1'', ''AccessPoint2'']"

definition assoc_row :: "real \<Rightarrow> 32 word \<Rightarrow> Mac48Address \<Rightarrow> string list" where
  "assoc_row t s ap = [showDouble t, ''ASSOC'', show_nat (unat s), showMac ap]"

definition deassoc_row :: "real \<Rightarrow> 32 word \<Rightarrow> Mac48Address \<Rightarrow> string list" where
  "deassoc_row t s ap = [showDouble t, ''DEASSOC'', show_nat (unat s), showMac ap]"

definition handover_row :: "real \<Rightarrow> 32 word \<Rightarrow> Mac48Address \<Rightarrow> Mac48Address \<Rightarrow> string list" where
  "handover_row t s from to = [showDouble t, ''HANDOVER'', show_nat (unat s), showMac from, showMac to]"

text \<open>
  The condition of the handover branch (line 111): the station has an entry in the map
  and the entry differs from the new access point.
\<close>

definition is_handover :: "tracker \<Rightarrow> 32 word \<Rightarrow> Mac48Address \<Rightarrow> bool" where
  "is_handover st s ap = (case currentAp st s of None \<Rightarrow> False | Some previous \<Rightarrow> previous \<noteq> ap)"

text \<open>
  The row that an event leaves in the log whatever the state (its \<^verbatim>\<open>ASSOC\<close> or
  \<^verbatim>\<open>DEASSOC\<close> row), the rows that are kept when the \<^verbatim>\<open>HANDOVER\<close> rows are dropped, and
  the shape of a data row: four plain fields of type \<^verbatim>\<open>ASSOC\<close> or \<^verbatim>\<open>DEASSOC\<close>, or five
  plain fields of type \<^verbatim>\<open>HANDOVER\<close>.
\<close>

definition station_text :: "string \<Rightarrow> string" where
  "station_text context = (case nodeIdOfContext context of Inl e \<Rightarrow> [] | Inr s \<Rightarrow> show_nat (unat s))"

fun entry :: "event \<Rightarrow> string list" where
  "entry (Assoc context apAddr currentTime) =
     [showDouble currentTime, ''ASSOC'', station_text context, showMac apAddr]"
| "entry (DeAssoc context apAddr currentTime) =
     [showDouble currentTime, ''DEASSOC'', station_text context, showMac apAddr]"

definition kept :: "string list \<Rightarrow> bool" where
  "kept r = (r ! 1 \<noteq> ''HANDOVER'')"

definition data_row :: "string list \<Rightarrow> bool" where
  "data_row r =
     (list_all plain r \<and>
      (length r = 4 \<and> (r ! 1 = ''ASSOC'' \<or> r ! 1 = ''DEASSOC'') \<or> length r = 5 \<and> r ! 1 = ''HANDOVER''))"

section \<open>Flow statistics\<close>

text \<open>
  The loop over the flow monitor's statistics after the run (lines 359-391 of
  \<^verbatim>\<open>wifi-roaming-v4.cc\<close>, lines 331-354 of \<^verbatim>\<open>roaming-saturation.cc\<close>). The engine's
  \<^verbatim>\<open>Time\<close> is a signed count of nanoseconds (its default resolution); simulation times
  are not negative, so their differences stay in its 64-bit range and the counts are
  modelled as integers. \<^verbatim>\<open>GetSeconds\<close> converts to a \<^verbatim>\<open>double\<close>.
\<close>

type_synonym Time = int

definition GetSeconds :: "Time \<Rightarrow> real" where
  "GetSeconds t = real_of_int t / 1000000000"

text \<open>The fields of the engine's \<^verbatim>\<open>FlowMonitor::FlowStats\<close> that the loop reads.\<close>

record FlowStats =
  timeFirstTxPacket :: Time
  timeLastRxPacket :: Time
  delaySum :: Time
  jitterSum :: Time
  lastDelay :: Time
  txBytes :: "64 word"
  rxBytes :: "64 word"
  txPackets :: "32 word"
  rxPackets :: "32 word"
  lostPackets :: "32 word"

record FiveTuple =
  sourceAddress :: "32 word"
  destinationAddress :: "32 word"

definition duration :: "FlowStats \<Rightarrow> real" where
  "duration fs = GetSeconds (timeLastRxPacket fs - timeFirstTxPacket fs)"

definition throughput :: "FlowStats \<Rightarrow> real" where
  "throughput fs =
     (if duration fs > 0 then real (unat (rxBytes fs)) * 8.0 / duration fs / 1000 else 0)"

text \<open>The mean delay, computed where it is printed (line 390).\<close>

definition meanDelay :: "FlowStats \<Rightarrow> real" where
  "meanDelay fs =
     (if unat (rxPackets fs) > 0 then GetSeconds (delaySum fs) / real (unat (rxPackets fs)) else 0)"

text \<open>The line inserted into \<^verbatim>\<open>flowCsv\<close> in one iteration (lines 370-382).\<close>

definition flowCsvLine :: "FiveTuple \<Rightarrow> 32 word \<Rightarrow> FlowStats \<Rightarrow> string" where
  "flowCsvLine t flowId fs =
     show_nat (unat flowId) @ '','' @ showIpv4 (sourceAddress t) @ '',''
     @ showIpv4 (destinationAddress t) @ '','' @ show_nat (unat (txPackets fs)) @ '',''
     @ show_nat (unat (rxPackets fs)) @ '','' @ show_nat (unat (lostPackets fs)) @ '',''
     @ showDouble (GetSeconds (delaySum fs)) @ '','' @ showDouble (GetSeconds (jitterSum fs)) @ '',''
     @ showDouble (GetSeconds (lastDelay fs)) @ '','' @ show_nat (unat (txBytes fs)) @ '',''
     @ show_nat (unat (rxBytes fs)) @ '','' @ showDouble (duration fs) @ '',''
     @ showDouble (throughput fs) @ endl"

text \<open>The summary inserted into \<^verbatim>\<open>std::cout\<close> in one iteration (lines 385-390).\<close>

definition flowSummary :: "FiveTuple \<Rightarrow> 32 word \<Rightarrow> FlowStats \<Rightarrow> string" where
  "flowSummary t flowId fs =
     ''Flux '' @ show_nat (unat flowId) @ '' ('' @ showIpv4 (sourceAddress t) @ '' -> ''
     @ showIpv4 (destinationAddress t) @ '')'' @ endl
     @ ''  Tx Packets: '' @ show_nat (unat (txPackets fs)) @ endl
     @ ''  Rx Packets: '' @ show_nat (unat (rxPackets fs)) @ endl
     @ ''  Lost Packets: '' @ show_nat (unat (lostPackets fs)) @ endl
     @ ''  Throughput: '' @ showDouble (throughput fs) @ '' kbps'' @ endl
     @ ''  Mean Delay: '' @ showDouble (meanDelay fs) @ '' s'' @ endl"

record outputs =
  flowCsv :: string
  cout :: string

text \<open>
  The loop. \<open>stats\<close> is the \<^verbatim>\<open>std::map\<close> of the statistics in the order of its iteration
  (ascending flow id) and \<open>FindFlow\<close> the classifier's lookup of a flow's addresses.
\<close>

fun flowStatsLoop ::
  "(32 word \<Rightarrow> FiveTuple) \<Rightarrow> (32 word \<times> FlowStats) list \<Rightarrow> outputs \<Rightarrow> outputs" where
  "flowStatsLoop FindFlow [] out = out"
| "flowStatsLoop FindFlow ((flowId, fs) # stats) out =
     flowStatsLoop FindFlow stats
       (out\<lparr>flowCsv := flowCsv out @ flowCsvLine (FindFlow flowId) flowId fs,
            cout := cout out @ flowSummary (FindFlow flowId) flowId fs\<rparr>)"

text \<open>
  The thirteen fields of the line that one iteration inserts into \<^verbatim>\<open>flowCsv\<close>.
\<close>

definition flow_row :: "FiveTuple \<Rightarrow> 32 word \<Rightarrow> FlowStats \<Rightarrow> string list" where
  "flow_row t flowId fs =
     [show_nat (unat flowId), showIpv4 (sourceAddress t), showIpv4 (destinationAddress t),
      show_nat (unat (txPackets fs)), show_nat (unat (rxPackets fs)),
      show_nat (unat (lostPackets fs)), showDouble (GetSeconds (delaySum fs)),
      showDouble (GetSeconds (jitterSum fs)), showDouble (GetSeconds (lastDelay fs)),
      show_nat (unat (txBytes fs)), show_nat (unat (rxBytes fs)), showDouble (duration fs),
      showDouble (throughput fs)]"

section \<open>Example inputs\<close>

text \<open>
  The context paths under which the engine calls the two callbacks for the station of
  node 0, two access points, and the tracker after the first and after the third event
  of the run in which station 0 associates with the first access point at 1 s, with the
  second at 5 s and again with the second at 8 s.
\<close>

definition S0_Assoc :: string where
  "S0_Assoc = ''/NodeList/0/DeviceList/0/$ns3::WifiNetDevice/Mac/$ns3::StaWifiMac/Assoc''"

definition S0_DeAssoc :: string where
  "S0_DeAssoc = ''/NodeList/0/DeviceList/0/$ns3::WifiNetDevice/Mac/$ns3::StaWifiMac/DeAssoc''"

definition AP_A :: Mac48Address where
  "AP_A = Mac48Address 0 0 0 0 0 1"

definition AP_B :: Mac48Address where
  "AP_B = Mac48Address 0 0 0 0 0 2"

definition after_first :: tracker where
  "after_first =
     \<lparr>handoverFile = ''Time,EventType,StationID,AccessPoint1,AccessPoint2'' @ endl
        @ ''1,ASSOC,0,00:00:00:00:00:01'' @ endl,
      handoverCount = 0,
      currentAp = [0 \<mapsto> AP_A]\<rparr>"

definition after_third :: tracker where
  "after_third =
     \<lparr>handoverFile = ''Time,EventType,StationID,AccessPoint1,AccessPoint2'' @ endl
        @ ''1,ASSOC,0,00:00:00:00:00:01'' @ endl
        @ ''5,HANDOVER,0,00:00:00:00:00:01,00:00:00:00:00:02'' @ endl
        @ ''5,ASSOC,0,00:00:00:00:00:02'' @ endl
        @ ''8,ASSOC,0,00:00:00:00:00:02'' @ endl,
      handoverCount = 1,
      currentAp = [0 \<mapsto> AP_B]\<rparr>"

text \<open>
  A flow that sent one packet at 2 s and received nothing, a flow that received 900000
  bytes between 1 s and 9 s, and the addresses 10.1.1.1 and 10.1.1.2.
\<close>

definition lost_flow :: FlowStats where
  "lost_flow =
     \<lparr>timeFirstTxPacket = 2000000000, timeLastRxPacket = 0, delaySum = 0, jitterSum = 0,
      lastDelay = 0, txBytes = 1024, rxBytes = 0, txPackets = 1, rxPackets = 0, lostPackets = 1\<rparr>"

definition example_flow :: FlowStats where
  "example_flow =
     \<lparr>timeFirstTxPacket = 1000000000, timeLastRxPacket = 9000000000, delaySum = 900000000,
      jitterSum = 0, lastDelay = 1000000, txBytes = 1000000, rxBytes = 900000,
      txPackets = 1000, rxPackets = 900, lostPackets = 100\<rparr>"

definition example_tuple :: FiveTuple where
  "example_tuple = \<lparr>sourceAddress = 167837953, destinationAddress = 167837954\<rparr>"

section \<open>Properties of the propagation model\<close>

lemma CalculateDistance_euclid:
  "CalculateDistance (Vector ax ay az) (Vector bx by bz)
     = sqrt ((ax - bx)\<^sup>2 + (ay - by)\<^sup>2 + (az - bz)\<^sup>2)"
proof -
  have "(bx - ax) * (bx - ax) = (ax - bx)\<^sup>2" "(by - ay) * (by - ay) = (ay - by)\<^sup>2"
    "(bz - az) * (bz - az) = (az - bz)\<^sup>2"
    by (simp_all add: power2_eq_square algebra_simps)
  then show ?thesis by (simp add: Let_def)
qed

lemma CalculateRssi_saturation_eq:
  "CalculateRssi_saturation tx rx = CalculateRssi tx rx"
  by (cases tx; cases rx) (simp only: CalculateRssi_saturation.simps CalculateRssi_def CalculateDistance_euclid)

lemma rssiOfDistance_antimono:
  assumes "referenceDistance < d1" and "d1 \<le> d2"
  shows "rssiOfDistance d2 \<le> rssiOfDistance d1"
proof -
  from assms have pos: "0 < d1" "0 < d2" and far: "\<not> d1 \<le> referenceDistance" "\<not> d2 \<le> referenceDistance"
    by (simp_all add: referenceDistance_def)
  from assms pos have "log 10 d1 \<le> log 10 d2"
    by simp
  with far show ?thesis
    by (simp add: rssiOfDistance_def referenceDistance_def exponent_def)
qed

text \<open>
  C2. For all transmitter and receiver positions, with the parameters fixed in the code
  at 16 dBm, 3, 1 m and 46.6777 dB, the result is exactly 16 - 46.6777 when the Euclidean
  distance of the two positions is at most 1 (so the logarithm is not taken there, zero
  distance included), and 16 - (46.6777 + 10 * 3 * log10 (distance / 1)) when it exceeds
  1. Both source files compute this value.
\<close>

theorem C2_CalculateRssi_piecewise:
  "CalculateRssi (Vector tx ty tz) (Vector rx ry rz) =
     (if sqrt ((tx - rx)\<^sup>2 + (ty - ry)\<^sup>2 + (tz - rz)\<^sup>2) \<le> 1
      then 16 - 46.6777
      else 16 - (46.6777 + 10 * 3 *
             log 10 (sqrt ((tx - rx)\<^sup>2 + (ty - ry)\<^sup>2 + (tz - rz)\<^sup>2) / 1)))
   \<and> CalculateRssi (Vector tx ty tz) (Vector tx ty tz) = 16 - 46.6777
   \<and> CalculateRssi_saturation (Vector tx ty tz) (Vector rx ry rz)
       = CalculateRssi (Vector tx ty tz) (Vector rx ry rz)"
proof (intro conjI)
  show "CalculateRssi_saturation (Vector tx ty tz) (Vector rx ry rz)
       = CalculateRssi (Vector tx ty tz) (Vector rx ry rz)"
    by (rule CalculateRssi_saturation_eq)
next
  show "CalculateRssi (Vector tx ty tz) (Vector tx ty tz) = 16 - 46.6777"
    by (simp add: CalculateRssi_def rssiOfDistance_def txPowerDbm_def referenceDistance_def
        referenceLoss_def)
next
  show "CalculateRssi (Vector tx ty tz) (Vector rx ry rz) =
     (if sqrt ((tx - rx)\<^sup>2 + (ty - ry)\<^sup>2 + (tz - rz)\<^sup>2) \<le> 1
      then 16 - 46.6777
      else 16 - (46.6777 + 10 * 3 *
             log 10 (sqrt ((tx - rx)\<^sup>2 + (ty - ry)\<^sup>2 + (tz - rz)\<^sup>2) / 1)))"
    unfolding CalculateRssi_def CalculateDistance_euclid
    by (simp add: rssiOfDistance_def txPowerDbm_def exponent_def referenceDistance_def
        referenceLoss_def)
qed

text \<open>
  C3. For two pairs of positions whose distances d1 < d2 both exceed the reference
  distance, the RSSI at distance d1 is at least the RSSI at distance d2.
\<close>

theorem C3_rssi_nonincreasing:
  assumes "referenceDistance < CalculateDistance tx1 rx1"
    and "CalculateDistance tx1 rx1 < CalculateDistance tx2 rx2"
  shows "CalculateRssi tx2 rx2 \<le> CalculateRssi tx1 rx1"
  using assms by (simp add: CalculateRssi_def rssiOfDistance_antimono)

lemma distance_on_axis:
  "0 \<le> d \<Longrightarrow> CalculateDistance (Vector 0 0 0) (Vector d 0 0) = d"
  by (simp add: Let_def)

theorem C3_rssi_nonincreasing_witness:
  "CalculateRssi (Vector 0 0 0) (Vector 100 0 0) \<le> CalculateRssi (Vector 0 0 0) (Vector 10 0 0)
   \<and> CalculateRssi (Vector 0 0 0) (Vector 10 0 0) = - 60.6777"
proof
  have d10: "CalculateDistance (Vector 0 0 0) (Vector 10 0 0) = 10"
    and d100: "CalculateDistance (Vector 0 0 0) (Vector 100 0 0) = 100"
    by (simp_all add: distance_on_axis)
  show "CalculateRssi (Vector 0 0 0) (Vector 100 0 0) \<le> CalculateRssi (Vector 0 0 0) (Vector 10 0 0)"
    using C3_rssi_nonincreasing [of "Vector 0 0 0" "Vector 10 0 0" "Vector 0 0 0" "Vector 100 0 0"]
    by (simp add: d10 d100 referenceDistance_def)
  show "CalculateRssi (Vector 0 0 0) (Vector 10 0 0) = - 60.6777"
    by (simp add: CalculateRssi_def d10 rssiOfDistance_def txPowerDbm_def exponent_def
        referenceDistance_def referenceLoss_def)
qed

section \<open>Properties of the written text\<close>

lemma plain_simps [simp]:
  "plain []" "plain (a @ b) = (plain a \<and> plain b)"
  "plain (x # xs) = (x \<noteq> CHR '','' \<and> x \<noteq> CHR 0x0A \<and> plain xs)"
  by (auto simp: plain_def)

lemma plain_take: "plain s \<Longrightarrow> plain (take n s)"
  by (auto simp: plain_def dest: in_set_takeD)

lemma plain_drop: "plain s \<Longrightarrow> plain (drop n s)"
  by (auto simp: plain_def dest: in_set_dropD)

lemma plain_replicate: "c \<noteq> CHR '','' \<Longrightarrow> c \<noteq> CHR 0x0A \<Longrightarrow> plain (replicate n c)"
  by (auto simp: plain_def)

lemma plain_strip_zeros: "plain s \<Longrightarrow> plain (strip_zeros s)"
  by (auto simp: plain_def strip_zeros_def dest: set_dropWhileD)

lemma digit_char_in: "d < 16 \<Longrightarrow> digit_char d \<in> set ''0123456789abcdef''"
  unfolding digit_char_def by (rule nth_mem) simp

lemma digit_char_plain: "d < 16 \<Longrightarrow> plain [digit_char d]"
  using digit_char_in [of d] by (auto simp: plain_def)

lemma plain_show_nat [simp]: "plain (show_nat n)"
proof (induction n rule: show_nat.induct)
  case (1 n)
  show ?case
  proof (cases "n < 10")
    case True
    then show ?thesis
      using digit_char_plain [of n] by (subst show_nat.simps) simp
  next
    case False
    have "n mod 10 < 16" by (rule less_trans [of _ 10]) simp_all
    then have "plain [digit_char (n mod 10)]" by (rule digit_char_plain)
    with False 1 show ?thesis
      by (subst show_nat.simps) simp
  qed
qed

lemma plain_hex2 [simp]: "plain (hex2 b)"
proof -
  have "unat b < 256" using unsigned_less [of b, where ?'a = nat] by simp
  then have "unat b div 16 < 16" by simp
  moreover have "unat b mod 16 < 16" by simp
  ultimately show ?thesis
    using digit_char_plain [of "unat b div 16"] digit_char_plain [of "unat b mod 16"]
    by (simp add: hex2_def)
qed

lemma plain_showMac [simp]: "plain (showMac m)"
  by (cases m) simp

lemma plain_showIpv4 [simp]: "plain (showIpv4 a)"
  by (simp add: showIpv4_def)

lemma plain_with_point: "plain ip \<Longrightarrow> plain fp \<Longrightarrow> plain (with_point ip fp)"
  by (simp add: with_point_def Let_def plain_strip_zeros)

lemma plain_showMagnitude: "plain (showMagnitude a)"
  by (simp add: showMagnitude_def Let_def split_beta plain_with_point plain_take plain_drop
      plain_replicate)

lemma plain_showDouble [simp]: "plain (showDouble v)"
  by (simp add: showDouble_def plain_showMagnitude)

subsection \<open>Splitting a text at its separators\<close>

lemma split_at_nonempty [simp]: "split_at c s \<noteq> []"
  by (induction s) (auto split: list.splits)

lemma split_at_sep: "split_at c (xs @ c # ys) = split_at c xs @ split_at c ys"
  by (induction xs) (auto split: list.splits)

lemma split_at_field: "c \<notin> set f \<Longrightarrow> split_at c (f @ c # rest) = f # split_at c rest"
  by (induction f) (auto split: list.splits)

lemma split_at_last: "c \<notin> set f \<Longrightarrow> split_at c f = [f]"
  by (induction f) (auto split: list.splits)

lemma fields_of_join:
  "row \<noteq> [] \<Longrightarrow> list_all plain row \<Longrightarrow> fields_of (join_commas row) = row"
proof (induction row rule: join_commas.induct)
  case 1
  then show ?case by simp
next
  case (2 f)
  then show ?case by (simp add: fields_of_def split_at_last plain_def)
next
  case (3 f g fs)
  then have "fields_of (join_commas (g # fs)) = g # fs" by simp
  moreover from 3 have "CHR '','' \<notin> set f" by (simp add: plain_def)
  ultimately show ?case
    by (simp add: fields_of_def split_at_field)
qed

lemma plain_join_no_newline:
  "list_all plain row \<Longrightarrow> CHR 0x0A \<notin> set (join_commas row)"
  by (induction row rule: join_commas.induct) (auto simp: plain_def)

lemma lines_of_Nil [simp]: "lines_of [] = []"
  by (simp add: lines_of_def)

lemma lines_of_line:
  "CHR 0x0A \<notin> set line \<Longrightarrow> lines_of (line @ endl @ rest) = line # lines_of rest"
  by (simp add: lines_of_def endl_def split_at_field butlast.simps(2) [of line])

lemma csv_rows_Nil [simp]: "csv_rows [] = []"
  by (simp add: csv_rows_def)

lemma csv_rows_line:
  "well_formed row \<Longrightarrow> csv_rows (csv_line row @ rest) = row # csv_rows rest"
  by (simp add: csv_rows_def csv_line_def well_formed_def lines_of_line plain_join_no_newline
      fields_of_join)

lemma csv_rows_lines:
  "list_all well_formed rows \<Longrightarrow> csv_rows (concat (map csv_line rows) @ rest) = rows @ csv_rows rest"
  by (induction rows) (simp_all add: csv_rows_line)

lemma csv_rows_roundtrip:
  "list_all well_formed rows \<Longrightarrow> csv_rows (concat (map csv_line rows)) = rows"
  using csv_rows_lines [of rows "[]"] by simp

lemma lines_of_append:
  assumes "complete_lines a"
  shows "lines_of (a @ b) = lines_of a @ lines_of b"
proof (cases "a = []")
  case True
  then show ?thesis by simp
next
  case False
  with assms obtain a' where a: "a = a' @ [CHR 0x0A]"
    unfolding complete_lines_def by (metis append_butlast_last_id)
  have "lines_of (a @ b) = butlast (split_at (CHR 0x0A) a' @ split_at (CHR 0x0A) b)"
    unfolding a lines_of_def by (simp add: split_at_sep)
  also have "\<dots> = split_at (CHR 0x0A) a' @ butlast (split_at (CHR 0x0A) b)"
    by (simp add: butlast_append)
  also have "split_at (CHR 0x0A) a' = lines_of a"
    unfolding a lines_of_def using split_at_sep [of "CHR 0x0A" a' "[]"] by simp
  finally show ?thesis by (simp add: lines_of_def)
qed

lemma csv_rows_append:
  "complete_lines a \<Longrightarrow> csv_rows (a @ b) = csv_rows a @ csv_rows b"
  by (simp add: csv_rows_def lines_of_append)

lemma csv_rows_one: "well_formed row \<Longrightarrow> csv_rows (csv_line row) = [row]"
  using csv_rows_line [of row "[]"] by simp

lemma csv_rows_two:
  "well_formed r1 \<Longrightarrow> well_formed r2 \<Longrightarrow> csv_rows (csv_line r1 @ csv_line r2) = [r1, r2]"
  by (simp add: csv_rows_line csv_rows_one)

lemma complete_csv_line [simp]: "complete_lines (a @ csv_line row)"
  by (simp add: complete_lines_def csv_line_def endl_def)

subsection \<open>The insertions of numbers and addresses are injective\<close>

lemma digit_char_inj:
  assumes "a < 16" "b < 16" "digit_char a = digit_char b"
  shows "a = b"
proof -
  have d: "distinct ''0123456789abcdef''" by simp
  have l: "length ''0123456789abcdef'' = 16" by simp
  from assms show ?thesis
    unfolding digit_char_def using nth_eq_iff_index_eq [OF d, of a b] l by presburger
qed

lemma hex2_inj:
  assumes "hex2 a = hex2 b"
  shows "a = b"
proof -
  have lt: "unat w div 16 < 16" "unat w mod 16 < 16" for w :: "8 word"
    using unsigned_less [of w, where ?'a = nat] by simp_all
  from assms have "digit_char (unat a div 16) = digit_char (unat b div 16)"
    and "digit_char (unat a mod 16) = digit_char (unat b mod 16)"
    by (simp_all add: hex2_def)
  then have "unat a div 16 = unat b div 16" "unat a mod 16 = unat b mod 16"
    using lt digit_char_inj by blast+
  then have "unat a = unat b"
    by (metis div_mult_mod_eq)
  then show ?thesis by (rule word_unat_eq_iff [THEN iffD2])
qed

lemma length_hex2 [simp]: "length (hex2 b) = 2"
  by (simp add: hex2_def)

lemma showMac_inj:
  assumes "showMac m = showMac n"
  shows "m = n"
proof (cases m)
  case m: (Mac48Address a b c d e f)
  show ?thesis
  proof (cases n)
    case n: (Mac48Address a' b' c' d' e' f')
    from assms have "hex2 a = hex2 a' \<and> hex2 b = hex2 b' \<and> hex2 c = hex2 c'
        \<and> hex2 d = hex2 d' \<and> hex2 e = hex2 e' \<and> hex2 f = hex2 f'"
      unfolding m n by simp
    then show ?thesis
      unfolding m n by (simp add: hex2_inj)
  qed
qed

lemma digit_value_digit_char: "d < 10 \<Longrightarrow> digit_value (digit_char d) = d"
proof -
  assume "d < 10"
  then have "d = 0 \<or> d = 1 \<or> d = 2 \<or> d = 3 \<or> d = 4 \<or> d = 5 \<or> d = 6 \<or> d = 7 \<or> d = 8 \<or> d = 9"
    by arith
  then show ?thesis
    by (elim disjE) (simp_all add: digit_value_def digit_char_def)
qed

lemma decimal_value_snoc:
  "decimal_value (ds @ [c]) = 10 * decimal_value ds + digit_value c"
  by (simp add: decimal_value_def)

lemma decimal_value_show_nat: "decimal_value (show_nat n) = n"
proof (induction n rule: show_nat.induct)
  case (1 n)
  show ?case
  proof (cases "n < 10")
    case True
    then show ?thesis
      by (subst show_nat.simps) (simp add: decimal_value_def digit_value_digit_char)
  next
    case False
    with 1 have "decimal_value (show_nat (n div 10)) = n div 10" by simp
    with False show ?thesis
      by (subst show_nat.simps) (simp add: decimal_value_snoc digit_value_digit_char)
  qed
qed

lemma show_nat_inj: "show_nat m = show_nat n \<Longrightarrow> m = n"
  by (metis decimal_value_show_nat)

lemma unat_show_inj: "show_nat (unat (a :: 32 word)) = show_nat (unat b) \<Longrightarrow> a = b"
  by (auto dest: show_nat_inj simp: word_unat_eq_iff)

subsection \<open>The text of particular times\<close>

lemma floor_log10_eq:
  assumes "10 powi k \<le> a" and "a < 10 powi (k + 1)"
  shows "\<lfloor>log 10 a\<rfloor> = k"
proof -
  have "0 < (10::real) powi k" by simp
  with assms have pos: "0 < a" by linarith
  have p: "(10::real) powr real_of_int j = 10 powi j" for j
    by (simp add: powr_real_of_int')
  have "(\<lfloor>log 10 a\<rfloor> = k) = (10 powr real_of_int k \<le> a \<and> a < 10 powr real_of_int (k + 1))"
    by (rule floor_log_eq_powr_iff [OF pos]) simp
  with assms show ?thesis
    unfolding p by blast
qed

lemma sig6_eval:
  assumes "10 powi k \<le> a" and "a < 10 powi (k + 1)"
    and "round_half_even (a * 10 powi (5 - k)) = m" and "m \<noteq> 1000000"
  shows "sig6 a = (m, k)"
  using assms by (simp add: sig6_def floor_log10_eq Let_def)

lemmas show_eval = showDouble_def showMagnitude_def with_point_def strip_zeros_def
  show_nat.simps digit_char_def Let_def

lemma showDouble_0: "showDouble 0 = ''0''"
  by (simp add: showDouble_def)

lemma showDouble_1: "showDouble 1 = ''1''"
proof -
  have "sig6 1 = (100000, 0)"
    by (rule sig6_eval) (simp_all add: round_half_even_def)
  then show ?thesis by (simp add: show_eval)
qed

lemma showDouble_1': "showDouble (1048577 / 1048576) = ''1''"
proof -
  have "sig6 (1048577 / 1048576) = (100000, 0)"
    by (rule sig6_eval) (simp_all add: round_half_even_def Let_def)
  then show ?thesis by (simp add: show_eval)
qed

lemma showDouble_5: "showDouble 5 = ''5''"
proof -
  have "sig6 5 = (500000, 0)"
    by (rule sig6_eval) (simp_all add: round_half_even_def)
  then show ?thesis by (simp add: show_eval)
qed

lemma showDouble_8: "showDouble 8 = ''8''"
proof -
  have "sig6 8 = (800000, 0)"
    by (rule sig6_eval) (simp_all add: round_half_even_def)
  then show ?thesis by (simp add: show_eval)
qed

lemma showDouble_9: "showDouble 9 = ''9''"
proof -
  have "sig6 9 = (900000, 0)"
    by (rule sig6_eval) (simp_all add: round_half_even_def)
  then show ?thesis by (simp add: show_eval)
qed

lemma showDouble_neg2: "showDouble (- 2) = ''-2''"
proof -
  have "sig6 2 = (200000, 0)"
    by (rule sig6_eval) (simp_all add: round_half_even_def)
  then show ?thesis by (simp add: show_eval)
qed

section \<open>Properties of the association tracker\<close>

lemmas ctx_eval = nodeIdOfContext_def string_find_def substr_def stoi_def npos_def Let_def
  isspace_def isdigit_def digit_value_def decimal_value_def

lemma S0_parses: "nodeIdOfContext S0_Assoc = Inr 0" "nodeIdOfContext S0_DeAssoc = Inr 0"
  by (simp_all add: S0_Assoc_def S0_DeAssoc_def ctx_eval)

text \<open>
  A context without the expected delimiters: \<^verbatim>\<open>substr\<close> or \<^verbatim>\<open>std::stoi\<close> throws, or,
  when at least nine characters precede a number, \<^verbatim>\<open>npos + 10\<close> wraps around to 9 and the
  number found there is taken for the station id.
\<close>

lemma context_too_short: "nodeIdOfContext ''Assoc'' = Inl out_of_range"
  by (simp add: ctx_eval)

lemma context_without_number: "nodeIdOfContext ''/NodeList/x/DeviceList'' = Inl invalid_argument"
  by (simp add: ctx_eval)

lemma find_absent: "string_find ''xxxxxxxxx42'' ''/NodeList/'' 0 = npos"
  by (simp add: string_find_def)

lemma unat_npos: "unat npos = 18446744073709551615"
  by (simp add: npos_def unsigned_minus_1_eq_mask mask_eq_exp_minus_1)

lemma find_from_npos: "string_find ''xxxxxxxxx42'' ''/Device'' npos = npos"
  by (simp add: string_find_def unat_npos)

lemma npos_arith: "npos + 10 = 9" "unat (npos - 9) = 18446744073709551606"
  by (simp_all add: npos_def)

lemma context_without_NodeList: "nodeIdOfContext ''xxxxxxxxx42'' = Inr 42"
  unfolding nodeIdOfContext_def find_absent find_from_npos Let_def npos_arith substr_def
  by (simp add: stoi_def isspace_def isdigit_def digit_value_def decimal_value_def npos_arith)

lemma callbacks_saturation_eq:
  "AssociationCallback_saturation = AssociationCallback"
  "DisassociationCallback_saturation = DisassociationCallback"
proof -
  have m: "MacToString = showMac"
    by (simp add: fun_eq_iff MacToString_def)
  show "AssociationCallback_saturation = AssociationCallback"
    unfolding fun_eq_iff AssociationCallback_saturation_def AssociationCallback_def m
    by (intro allI refl)
  show "DisassociationCallback_saturation = DisassociationCallback"
    unfolding fun_eq_iff DisassociationCallback_saturation_def DisassociationCallback_def m
    by (intro allI refl)
qed

lemmas row_defs = header_row_def assoc_row_def deassoc_row_def handover_row_def

lemma well_formed_rows [simp]:
  "well_formed header_row" "well_formed (assoc_row t s ap)" "well_formed (deassoc_row t s ap)"
  "well_formed (handover_row t s p ap)"
  by (simp_all add: well_formed_def row_defs)

lemma initial_file: "handoverFile initial = csv_line header_row"
  by (simp add: initial_def csv_line_def header_row_def)

lemma assoc_step:
  assumes "nodeIdOfContext context = Inr s"
  shows "AssociationCallback context ap t st =
     Inr (st\<lparr>handoverCount := (if is_handover st s ap then handoverCount st + 1 else handoverCount st),
             handoverFile := handoverFile st
               @ (case currentAp st s of
                    None \<Rightarrow> []
                  | Some previous \<Rightarrow>
                      if previous \<noteq> ap then csv_line (handover_row t s previous ap) else [])
               @ csv_line (assoc_row t s ap),
             currentAp := (currentAp st)(s \<mapsto> ap)\<rparr>)"
  using assms
  by (simp add: AssociationCallback_def is_handover_def csv_line_def row_defs Let_def
      split: option.split)

lemma deassoc_step:
  assumes "nodeIdOfContext context = Inr s"
  shows "DisassociationCallback context ap t st =
     Inr (st\<lparr>handoverFile := handoverFile st @ csv_line (deassoc_row t s ap)\<rparr>)"
  using assms by (simp add: DisassociationCallback_def csv_line_def row_defs)

lemma is_handover_iff:
  "is_handover st s ap = (currentAp st s \<noteq> None \<and> currentAp st s \<noteq> Some ap)"
  by (simp add: is_handover_def split: option.split)

lemma callback_parses:
  "AssociationCallback context ap t st = Inr st' \<Longrightarrow> \<exists>s. nodeIdOfContext context = Inr s"
  "DisassociationCallback context ap t st = Inr st' \<Longrightarrow> \<exists>s. nodeIdOfContext context = Inr s"
  by (auto simp: AssociationCallback_def DisassociationCallback_def split: sum.splits)

lemma unat_count_step:
  "unat (c + (if b then 1 else 0) :: 32 word) = (unat c + (if b then 1 else 0)) mod 2 ^ 32"
  by (simp add: unat_word_ariths)

lemma run_first_association:
  "run evs st = Inr st' \<Longrightarrow> currentAp st s = None \<Longrightarrow> \<forall>e\<in>set evs. \<not> associates s e
     \<Longrightarrow> currentAp st' s = None"
proof (induction evs arbitrary: st)
  case Nil
  then show ?case by simp
next
  case (Cons e evs)
  from Cons.prems(1) obtain st1 where d: "deliver e st = Inr st1" and r: "run evs st1 = Inr st'"
    by (auto split: sum.splits)
  have "currentAp st1 s = None"
  proof (cases e)
    case (Assoc ctx ap t)
    with d obtain s1 where p: "nodeIdOfContext ctx = Inr s1"
      using callback_parses(1) [of ctx ap t st st1] by auto
    with Cons.prems(3) Assoc have "s1 \<noteq> s" by auto
    with d Assoc Cons.prems(2) show ?thesis
      by (auto simp: assoc_step [OF p])
  next
    case (DeAssoc ctx ap t)
    with d obtain s1 where p: "nodeIdOfContext ctx = Inr s1"
      using callback_parses(2) [of ctx ap t st st1] by auto
    with d DeAssoc Cons.prems(2) show ?thesis
      by (auto simp: deassoc_step [OF p])
  qed
  with Cons.IH [OF r] Cons.prems(3) show ?case by simp
qed

lemma run_count_le:
  "run evs st = Inr st' \<Longrightarrow> unat (handoverCount st') \<le> unat (handoverCount st) + length evs"
proof (induction evs arbitrary: st)
  case Nil
  then show ?case by simp
next
  case (Cons e evs)
  from Cons.prems(1) obtain st1 where d: "deliver e st = Inr st1" and r: "run evs st1 = Inr st'"
    by (auto split: sum.splits)
  have "unat (handoverCount st1) \<le> unat (handoverCount st) + 1"
  proof (cases e)
    case (Assoc ctx ap t)
    with d obtain s1 where p: "nodeIdOfContext ctx = Inr s1"
      using callback_parses(1) [of ctx ap t st st1] by auto
    have "unat (handoverCount st + 1) \<le> unat (handoverCount st) + 1"
      by (simp add: unat_word_ariths)
    with d Assoc show ?thesis
      by (auto simp: assoc_step [OF p])
  next
    case (DeAssoc ctx ap t)
    with d obtain s1 where p: "nodeIdOfContext ctx = Inr s1"
      using callback_parses(2) [of ctx ap t st st1] by auto
    with d DeAssoc show ?thesis
      by (auto simp: deassoc_step [OF p])
  qed
  with Cons.IH [OF r] show ?case by simp
qed

lemmas text_eval = csv_line_def row_defs show_nat.simps digit_char_def hex2_def endl_def
  AP_A_def AP_B_def is_handover_def

lemma scenario_1: "run [Assoc S0_Assoc AP_A 1] initial = Inr after_first"
  by (simp add: assoc_step [OF S0_parses(1)] initial_def after_first_def showDouble_1 text_eval)

lemma scenario_1': "run [Assoc S0_Assoc AP_A (1 + 1 / 2 ^ 20)] initial = Inr after_first"
  by (simp add: assoc_step [OF S0_parses(1)] initial_def after_first_def showDouble_1' text_eval)

lemma scenario_3:
  "run [Assoc S0_Assoc AP_A 1, Assoc S0_Assoc AP_B 5, Assoc S0_Assoc AP_B 8] initial = Inr after_third"
  by (simp add: assoc_step [OF S0_parses(1)] initial_def after_third_def showDouble_1
      showDouble_5 showDouble_8 text_eval)

lemma complete_examples: "complete_lines (handoverFile after_first)"
  by (simp add: complete_lines_def after_first_def endl_def)

text \<open>
  C1. Handling an association of station \<open>s\<close> with access point \<open>ap\<close> adds exactly 1 to
  the handover counter when \<open>s\<close> has an entry in the map and the entry differs from \<open>ap\<close>,
  and adds 0 otherwise. The counter is a \<^verbatim>\<open>uint32_t\<close>: the addition is that of the
  machine, and it is the addition of natural numbers in every run of fewer than
  \<open>2\<^sup>3\<^sup>2 - 1\<close> events. In particular, when no earlier event of the run is an
  association of \<open>s\<close>, the counter is unchanged, whatever \<open>ap\<close> is.
\<close>

theorem C1_handover_counter:
  assumes "nodeIdOfContext context = Inr s"
  shows "\<exists>st'. AssociationCallback context ap t st = Inr st'
     \<and> handoverCount st' = handoverCount st
          + (if currentAp st s \<noteq> None \<and> currentAp st s \<noteq> Some ap then 1 else 0)
     \<and> unat (handoverCount st') = (unat (handoverCount st)
          + (if currentAp st s \<noteq> None \<and> currentAp st s \<noteq> Some ap then 1 else 0)) mod 2 ^ 32
     \<and> (\<forall>evs. run evs initial = Inr st \<longrightarrow>
          ((\<forall>e\<in>set evs. \<not> associates s e) \<longrightarrow> handoverCount st' = handoverCount st)
          \<and> (length evs < 2 ^ 32 - 1 \<longrightarrow> unat (handoverCount st') = unat (handoverCount st)
                + (if currentAp st s \<noteq> None \<and> currentAp st s \<noteq> Some ap then 1 else 0)))"
proof -
  let ?b = "currentAp st s \<noteq> None \<and> currentAp st s \<noteq> Some ap"
  obtain st' where st': "AssociationCallback context ap t st = Inr st'"
    and c: "handoverCount st' = handoverCount st + (if ?b then 1 else 0)"
    by (simp add: assoc_step [OF assms] is_handover_iff)
  have u: "unat (handoverCount st') = (unat (handoverCount st) + (if ?b then 1 else 0)) mod 2 ^ 32"
    unfolding c by (rule unat_count_step)
  have "handoverCount st' = handoverCount st"
    if "run evs initial = Inr st" "\<forall>e\<in>set evs. \<not> associates s e" for evs
  proof -
    have "currentAp st s = None"
      using run_first_association [OF that(1) _ that(2)] by (simp add: initial_def)
    with c show ?thesis by simp
  qed
  moreover have "unat (handoverCount st') = unat (handoverCount st) + (if ?b then 1 else 0)"
    if "run evs initial = Inr st" "length evs < 2 ^ 32 - 1" for evs
  proof -
    from run_count_le [OF that(1)] that(2) have "unat (handoverCount st) < 2 ^ 32 - 1"
      by (simp add: initial_def)
    then have "unat (handoverCount st) + (if ?b then 1 else 0) < 2 ^ 32"
      by simp
    with u show ?thesis by simp
  qed
  ultimately show ?thesis
    using st' c u by blast
qed

theorem C1_handover_counter_witness:
  "(\<exists>st'. AssociationCallback S0_Assoc AP_A 1 initial = Inr st' \<and> handoverCount st' = 0)
   \<and> (\<exists>st'. AssociationCallback S0_Assoc AP_B 5 after_first = Inr st'
          \<and> handoverCount st' = 1 \<and> unat (handoverCount st') = 1)
   \<and> (\<exists>st'. AssociationCallback S0_Assoc AP_B 8 after_third = Inr st' \<and> handoverCount st' = 1)"
proof (intro conjI)
  from C1_handover_counter [OF S0_parses(1), of AP_A 1 initial] obtain st'
    where a: "AssociationCallback S0_Assoc AP_A 1 initial = Inr st'"
      and b: "\<forall>evs. run evs initial = Inr initial \<longrightarrow>
          ((\<forall>e\<in>set evs. \<not> associates 0 e) \<longrightarrow> handoverCount st' = handoverCount initial)
          \<and> (length evs < 2 ^ 32 - 1 \<longrightarrow> unat (handoverCount st') = unat (handoverCount initial)
                + (if currentAp initial 0 \<noteq> None \<and> currentAp initial 0 \<noteq> Some AP_A then 1 else 0))"
    by blast
  from b [rule_format, of "[]"] have "handoverCount st' = handoverCount initial" by simp
  with a show "\<exists>st'. AssociationCallback S0_Assoc AP_A 1 initial = Inr st' \<and> handoverCount st' = 0"
    by (simp add: initial_def)
next
  from C1_handover_counter [OF S0_parses(1), of AP_B 5 after_first] obtain st'
    where a: "AssociationCallback S0_Assoc AP_B 5 after_first = Inr st'"
      and c: "handoverCount st' = handoverCount after_first
          + (if currentAp after_first 0 \<noteq> None \<and> currentAp after_first 0 \<noteq> Some AP_B then 1 else 0)"
      and b: "\<forall>evs. run evs initial = Inr after_first \<longrightarrow>
          ((\<forall>e\<in>set evs. \<not> associates 0 e) \<longrightarrow> handoverCount st' = handoverCount after_first)
          \<and> (length evs < 2 ^ 32 - 1 \<longrightarrow> unat (handoverCount st') = unat (handoverCount after_first)
                + (if currentAp after_first 0 \<noteq> None \<and> currentAp after_first 0 \<noteq> Some AP_B then 1 else 0))"
    by blast
  from b [rule_format, of "[Assoc S0_Assoc AP_A 1]"] scenario_1
  have "unat (handoverCount st') = 1"
    by (simp add: after_first_def AP_A_def AP_B_def)
  moreover from c have "handoverCount st' = 1"
    by (simp add: after_first_def AP_A_def AP_B_def)
  ultimately show "\<exists>st'. AssociationCallback S0_Assoc AP_B 5 after_first = Inr st'
          \<and> handoverCount st' = 1 \<and> unat (handoverCount st') = 1"
    using a by blast
next
  from C1_handover_counter [OF S0_parses(1), of AP_B 8 after_third] obtain st'
    where a: "AssociationCallback S0_Assoc AP_B 8 after_third = Inr st'"
      and c: "handoverCount st' = handoverCount after_third
          + (if currentAp after_third 0 \<noteq> None \<and> currentAp after_third 0 \<noteq> Some AP_B then 1 else 0)"
    by blast
  from c have "handoverCount st' = 1"
    by (simp add: after_third_def)
  with a show "\<exists>st'. AssociationCallback S0_Assoc AP_B 8 after_third = Inr st' \<and> handoverCount st' = 1"
    by blast
qed

text \<open>
  C6. After every association of station \<open>s\<close> with \<open>ap\<close>, whatever the state before
  (no entry, the same entry or another one), the entry of \<open>s\<close> is \<open>ap\<close> and the entry of
  every other station is unchanged.
\<close>

theorem C6_currentAp_update:
  assumes "nodeIdOfContext context = Inr s"
  shows "\<exists>st'. AssociationCallback context ap t st = Inr st'
     \<and> currentAp st' s = Some ap
     \<and> (\<forall>s'. s' \<noteq> s \<longrightarrow> currentAp st' s' = currentAp st s')"
  by (simp add: assoc_step [OF assms])

theorem C6_currentAp_update_witness:
  "\<exists>st'. AssociationCallback S0_Assoc AP_B 5 after_first = Inr st'
     \<and> currentAp st' 0 = Some AP_B \<and> currentAp st' 7 = None"
proof -
  from C6_currentAp_update [OF S0_parses(1), of AP_B 5 after_first] obtain st'
    where a: "AssociationCallback S0_Assoc AP_B 5 after_first = Inr st'"
      and b: "currentAp st' 0 = Some AP_B"
      and c: "\<forall>s'. s' \<noteq> 0 \<longrightarrow> currentAp st' s' = currentAp after_first s'"
    by blast
  from c [rule_format, of 7] have "currentAp st' 7 = None"
    by (simp add: after_first_def)
  with a b show ?thesis by blast
qed

text \<open>
  C7. Every disassociation of station \<open>s\<close> appends exactly one row to the event log, the
  \<^verbatim>\<open>DEASSOC\<close> row of \<open>s\<close>, and leaves the map (the entry of \<open>s\<close> included) and the
  handover counter unchanged.
\<close>

theorem C7_disassociate:
  assumes "nodeIdOfContext context = Inr s"
  shows "\<exists>st'. DisassociationCallback context ap t st = Inr st'
     \<and> handoverFile st' = handoverFile st
          @ csv_line [showDouble t, ''DEASSOC'', show_nat (unat s), showMac ap]
     \<and> csv_rows (csv_line [showDouble t, ''DEASSOC'', show_nat (unat s), showMac ap])
          = [[showDouble t, ''DEASSOC'', show_nat (unat s), showMac ap]]
     \<and> (complete_lines (handoverFile st) \<longrightarrow>
          csv_rows (handoverFile st') = csv_rows (handoverFile st)
            @ [[showDouble t, ''DEASSOC'', show_nat (unat s), showMac ap]])
     \<and> currentAp st' = currentAp st
     \<and> handoverCount st' = handoverCount st"
  using well_formed_rows(3) [of t s ap]
  by (simp add: deassoc_step [OF assms] csv_rows_append csv_rows_one deassoc_row_def)

theorem C7_disassociate_witness:
  "\<exists>st'. DisassociationCallback S0_DeAssoc AP_A 9 after_first = Inr st'
     \<and> handoverFile st' = handoverFile after_first @ ''9,DEASSOC,0,00:00:00:00:00:01'' @ endl
     \<and> csv_rows (handoverFile st') = csv_rows (handoverFile after_first)
          @ [[''9'', ''DEASSOC'', ''0'', ''00:00:00:00:00:01'']]
     \<and> currentAp st' 0 = Some AP_A \<and> handoverCount st' = 0"
proof -
  have row: "[showDouble 9, ''DEASSOC'', show_nat (unat (0 :: 32 word)), showMac AP_A]
      = [''9'', ''DEASSOC'', ''0'', ''00:00:00:00:00:01'']"
    by (simp add: showDouble_9 text_eval)
  have line: "csv_line [''9'', ''DEASSOC'', ''0'', ''00:00:00:00:00:01'']
      = ''9,DEASSOC,0,00:00:00:00:00:01'' @ endl"
    by (simp add: csv_line_def)
  from C7_disassociate [OF S0_parses(2), of AP_A 9 after_first] complete_examples obtain st'
    where call: "DisassociationCallback S0_DeAssoc AP_A 9 after_first = Inr st'"
      and fq: "handoverFile st' = handoverFile after_first
          @ csv_line [showDouble 9, ''DEASSOC'', show_nat (unat (0 :: 32 word)), showMac AP_A]"
      and rows: "csv_rows (handoverFile st') = csv_rows (handoverFile after_first)
            @ [[showDouble 9, ''DEASSOC'', show_nat (unat (0 :: 32 word)), showMac AP_A]]"
      and ap: "currentAp st' = currentAp after_first"
      and cnt: "handoverCount st' = handoverCount after_first"
    by blast
  from ap have ap': "currentAp st' 0 = Some AP_A"
    by (simp add: after_first_def)
  from cnt have cnt': "handoverCount st' = 0"
    by (simp add: after_first_def)
  show ?thesis
    by (intro exI [of _ st'] conjI)
      (rule call fq [unfolded row line] rows [unfolded row] ap' cnt')+
qed

text \<open>
  C8. An association of a station whose entry is set and differs from the new access
  point appends exactly two rows, in this order: a \<^verbatim>\<open>HANDOVER\<close> row with the previous
  entry as AccessPoint1 and the new access point as AccessPoint2, then an \<^verbatim>\<open>ASSOC\<close>
  row with the new access point. A first association and a reassociation append exactly
  one \<^verbatim>\<open>ASSOC\<close> row and no \<^verbatim>\<open>HANDOVER\<close> row.
\<close>

theorem C8_rows_of_associate:
  assumes "nodeIdOfContext context = Inr s"
  shows "\<exists>st' appended. AssociationCallback context ap t st = Inr st'
     \<and> handoverFile st' = handoverFile st @ appended
     \<and> csv_rows appended =
          (case currentAp st s of
             None \<Rightarrow> [[showDouble t, ''ASSOC'', show_nat (unat s), showMac ap]]
           | Some previous \<Rightarrow>
               if previous \<noteq> ap
               then [[showDouble t, ''HANDOVER'', show_nat (unat s), showMac previous, showMac ap],
                     [showDouble t, ''ASSOC'', show_nat (unat s), showMac ap]]
               else [[showDouble t, ''ASSOC'', show_nat (unat s), showMac ap]])
     \<and> (complete_lines (handoverFile st) \<longrightarrow>
          csv_rows (handoverFile st') = csv_rows (handoverFile st) @ csv_rows appended)"
proof -
  let ?appended = "(case currentAp st s of
                    None \<Rightarrow> []
                  | Some previous \<Rightarrow>
                      if previous \<noteq> ap then csv_line (handover_row t s previous ap) else [])
               @ csv_line (assoc_row t s ap)"
  have "csv_rows ?appended =
          (case currentAp st s of
             None \<Rightarrow> [assoc_row t s ap]
           | Some previous \<Rightarrow>
               if previous \<noteq> ap then [handover_row t s previous ap, assoc_row t s ap]
               else [assoc_row t s ap])"
    by (simp add: csv_rows_one csv_rows_two split: option.split)
  then have "csv_rows ?appended =
          (case currentAp st s of
             None \<Rightarrow> [[showDouble t, ''ASSOC'', show_nat (unat s), showMac ap]]
           | Some previous \<Rightarrow>
               if previous \<noteq> ap
               then [[showDouble t, ''HANDOVER'', show_nat (unat s), showMac previous, showMac ap],
                     [showDouble t, ''ASSOC'', show_nat (unat s), showMac ap]]
               else [[showDouble t, ''ASSOC'', show_nat (unat s), showMac ap]])"
    by (simp only: assoc_row_def handover_row_def)
  note rows = this
  define st' where "st' = st\<lparr>handoverCount :=
        (if is_handover st s ap then handoverCount st + 1 else handoverCount st),
      handoverFile := handoverFile st @ ?appended, currentAp := (currentAp st)(s \<mapsto> ap)\<rparr>"
  have call: "AssociationCallback context ap t st = Inr st'"
    by (simp add: st'_def assoc_step [OF assms])
  have fileq: "handoverFile st' = handoverFile st @ ?appended"
    by (simp add: st'_def)
  have "csv_rows (handoverFile st') = csv_rows (handoverFile st) @ csv_rows ?appended"
    if "complete_lines (handoverFile st)"
    unfolding fileq using that by (rule csv_rows_append)
  with call fileq rows show ?thesis by blast
qed

theorem C8_rows_of_associate_witness:
  "\<exists>st' appended. AssociationCallback S0_Assoc AP_B 5 after_first = Inr st'
     \<and> handoverFile st' = handoverFile after_first @ appended
     \<and> csv_rows appended =
          [[''5'', ''HANDOVER'', ''0'', ''00:00:00:00:00:01'', ''00:00:00:00:00:02''],
           [''5'', ''ASSOC'', ''0'', ''00:00:00:00:00:02'']]"
proof -
  from C8_rows_of_associate [OF S0_parses(1), of AP_B 5 after_first] obtain st' appended
    where a: "AssociationCallback S0_Assoc AP_B 5 after_first = Inr st'"
      "handoverFile st' = handoverFile after_first @ appended"
      and b: "csv_rows appended =
          (case currentAp after_first 0 of
             None \<Rightarrow> [[showDouble 5, ''ASSOC'', show_nat (unat (0 :: 32 word)), showMac AP_B]]
           | Some previous \<Rightarrow>
               if previous \<noteq> AP_B
               then [[showDouble 5, ''HANDOVER'', show_nat (unat (0 :: 32 word)), showMac previous, showMac AP_B],
                     [showDouble 5, ''ASSOC'', show_nat (unat (0 :: 32 word)), showMac AP_B]]
               else [[showDouble 5, ''ASSOC'', show_nat (unat (0 :: 32 word)), showMac AP_B]])"
    by blast
  from b have "csv_rows appended =
          [[''5'', ''HANDOVER'', ''0'', ''00:00:00:00:00:01'', ''00:00:00:00:00:02''],
           [''5'', ''ASSOC'', ''0'', ''00:00:00:00:00:02'']]"
    by (simp add: after_first_def showDouble_5 text_eval)
  with a show ?thesis by blast
qed

section \<open>Properties of the event log of a run\<close>

lemma data_row_rows [simp]:
  "data_row (assoc_row t s ap)" "data_row (deassoc_row t s ap)" "data_row (handover_row t s p ap)"
  by (simp_all add: data_row_def row_defs)

lemma kept_rows [simp]:
  "kept (assoc_row t s ap)" "kept (deassoc_row t s ap)" "\<not> kept (handover_row t s p ap)"
  by (simp_all add: kept_def row_defs)

lemma data_row_well_formed: "data_row r \<Longrightarrow> well_formed r"
  by (auto simp: data_row_def well_formed_def)

lemma deliver_rows:
  assumes "deliver e st = Inr st1"
  shows "\<exists>rs. handoverFile st1 = handoverFile st @ concat (map csv_line rs)
     \<and> list_all data_row rs \<and> filter kept rs = [entry e]"
proof (cases e)
  case (Assoc ctx ap t)
  with assms obtain s where p: "nodeIdOfContext ctx = Inr s"
    using callback_parses(1) [of ctx ap t st st1] by auto
  have e: "entry e = assoc_row t s ap"
    by (simp add: Assoc station_text_def p assoc_row_def)
  show ?thesis
  proof (cases "is_handover st s ap")
    case True
    then obtain previous where pr: "currentAp st s = Some previous" "previous \<noteq> ap"
      by (auto simp: is_handover_def split: option.splits)
    let ?rs = "[handover_row t s previous ap, assoc_row t s ap]"
    from assms have "handoverFile st1 = handoverFile st @ concat (map csv_line ?rs)"
      by (auto simp: Assoc assoc_step [OF p] pr)
    moreover have "list_all data_row ?rs" "filter kept ?rs = [entry e]"
      by (simp_all add: e)
    ultimately show ?thesis by blast
  next
    case False
    let ?rs = "[assoc_row t s ap]"
    from assms False have "handoverFile st1 = handoverFile st @ concat (map csv_line ?rs)"
      by (auto simp: Assoc assoc_step [OF p] is_handover_def split: option.splits)
    moreover have "list_all data_row ?rs" "filter kept ?rs = [entry e]"
      by (simp_all add: e)
    ultimately show ?thesis by blast
  qed
next
  case (DeAssoc ctx ap t)
  with assms obtain s where p: "nodeIdOfContext ctx = Inr s"
    using callback_parses(2) [of ctx ap t st st1] by auto
  have e: "entry e = deassoc_row t s ap"
    by (simp add: DeAssoc station_text_def p deassoc_row_def)
  let ?rs = "[deassoc_row t s ap]"
  from assms have "handoverFile st1 = handoverFile st @ concat (map csv_line ?rs)"
    by (auto simp: DeAssoc deassoc_step [OF p])
  moreover have "list_all data_row ?rs" "filter kept ?rs = [entry e]"
    by (simp_all add: e)
  ultimately show ?thesis by blast
qed

lemma run_rows:
  "run evs st = Inr st' \<Longrightarrow>
     \<exists>rows. handoverFile st' = handoverFile st @ concat (map csv_line rows)
       \<and> list_all data_row rows \<and> filter kept rows = map entry evs"
proof (induction evs arbitrary: st)
  case Nil
  then have "handoverFile st' = handoverFile st @ concat (map csv_line [])" by simp
  then show ?case by fastforce
next
  case (Cons e evs)
  from Cons.prems obtain st1 where d: "deliver e st = Inr st1" and r: "run evs st1 = Inr st'"
    by (auto split: sum.splits)
  from deliver_rows [OF d] obtain rs where rs:
    "handoverFile st1 = handoverFile st @ concat (map csv_line rs)"
    "list_all data_row rs" "filter kept rs = [entry e]"
    by blast
  from Cons.IH [OF r] obtain rows where rows:
    "handoverFile st' = handoverFile st1 @ concat (map csv_line rows)"
    "list_all data_row rows" "filter kept rows = map entry evs"
    by blast
  have "handoverFile st' = handoverFile st @ concat (map csv_line (rs @ rows))"
    by (simp add: rs(1) rows(1))
  moreover have "list_all data_row (rs @ rows)"
    using rs(2) rows(2) by simp
  moreover have "filter kept (rs @ rows) = map entry (e # evs)"
    using rs(3) rows(3) by simp
  ultimately show ?case by blast
qed

lemma run_csv_rows:
  assumes "run evs initial = Inr st"
  shows "\<exists>rows. csv_rows (handoverFile st) = header_row # rows
     \<and> list_all data_row rows \<and> filter kept rows = map entry evs"
proof -
  from run_rows [OF assms] obtain rows where rows:
    "handoverFile st = handoverFile initial @ concat (map csv_line rows)"
    "list_all data_row rows" "filter kept rows = map entry evs"
    by blast
  from rows(2) have wf: "list_all well_formed rows"
    by (simp add: list_all_iff data_row_well_formed)
  have "csv_rows (handoverFile st) = header_row # rows"
    unfolding rows(1) initial_file
    by (simp add: csv_rows_line csv_rows_roundtrip [OF wf])
  with rows show ?thesis by blast
qed

lemma run_parses:
  "run evs st = Inr st' \<Longrightarrow> e \<in> set evs \<Longrightarrow> \<exists>s. fst (snd (snd (logged e))) = Inr s"
proof (induction evs arbitrary: st)
  case Nil
  then show ?case by simp
next
  case (Cons x evs)
  from Cons.prems(1) obtain st1 where d: "deliver x st = Inr st1" and r: "run evs st1 = Inr st'"
    by (auto split: sum.splits)
  show ?case
  proof (cases "e = x")
    case True
    show ?thesis
    proof (cases x)
      case (Assoc ctx ap t)
      with d True show ?thesis using callback_parses(1) [of ctx ap t st st1] by auto
    next
      case (DeAssoc ctx ap t)
      with d True show ?thesis using callback_parses(2) [of ctx ap t st st1] by auto
    qed
  next
    case False
    with Cons.prems(2) have "e \<in> set evs" by simp
    with Cons.IH [OF r] show ?thesis by blast
  qed
qed

lemma entry_logged:
  assumes "entry a = entry b"
    and "\<exists>s. fst (snd (snd (logged a))) = Inr s" and "\<exists>s. fst (snd (snd (logged b))) = Inr s"
  shows "logged a = logged b"
  using assms
  by (cases a; cases b) (auto simp: station_text_def dest: showMac_inj unat_show_inj)

lemma map_entry_logged:
  "map entry xs = map entry ys \<Longrightarrow>
   \<forall>e\<in>set xs. \<exists>s. fst (snd (snd (logged e))) = Inr s \<Longrightarrow>
   \<forall>e\<in>set ys. \<exists>s. fst (snd (snd (logged e))) = Inr s \<Longrightarrow>
   map logged xs = map logged ys"
proof (induction xs arbitrary: ys)
  case Nil
  then show ?case by simp
next
  case (Cons x xs)
  then obtain y ys' where ys: "ys = y # ys'" by (cases ys) auto
  with Cons.prems have "entry x = entry y" "map entry xs = map entry ys'" by simp_all
  moreover from Cons.prems ys have "logged x = logged y"
    by (intro entry_logged) auto
  moreover from Cons.prems ys have "map logged xs = map logged ys'"
    by (intro Cons.IH) auto
  ultimately show ?case by (simp add: ys)
qed

text \<open>
  C10. In the event log of every run, the header row has five fields, every
  \<^verbatim>\<open>ASSOC\<close> and \<^verbatim>\<open>DEASSOC\<close> row has exactly four fields (so no empty fifth field),
  and every \<^verbatim>\<open>HANDOVER\<close> row has five; there are no other rows.
\<close>

theorem C10_field_counts:
  assumes "run evs initial = Inr st"
  shows "\<exists>rows. csv_rows (handoverFile st)
       = [''Time'', ''EventType'', ''StationID'', ''AccessPoint1'', ''AccessPoint2''] # rows
     \<and> (\<forall>r\<in>set rows. length r = 4 \<and> (r ! 1 = ''ASSOC'' \<or> r ! 1 = ''DEASSOC'')
                        \<or> length r = 5 \<and> r ! 1 = ''HANDOVER'')"
proof -
  from run_csv_rows [OF assms] obtain rows where
    "csv_rows (handoverFile st) = header_row # rows" "list_all data_row rows"
    by blast
  then show ?thesis
    unfolding header_row_def list_all_iff data_row_def by blast
qed

theorem C10_field_counts_witness:
  "run [Assoc S0_Assoc AP_A 1, Assoc S0_Assoc AP_B 5, Assoc S0_Assoc AP_B 8] initial = Inr after_third
   \<and> (\<exists>rows. csv_rows (handoverFile after_third)
          = [''Time'', ''EventType'', ''StationID'', ''AccessPoint1'', ''AccessPoint2''] # rows
        \<and> (\<forall>r\<in>set rows. length r = 4 \<and> (r ! 1 = ''ASSOC'' \<or> r ! 1 = ''DEASSOC'')
                           \<or> length r = 5 \<and> r ! 1 = ''HANDOVER''))"
  using C10_field_counts [OF scenario_3] scenario_3 by blast

text \<open>
  C9, as amended. The event log of a run determines, in order, the kind, the station
  and the access point of every event of the run, and the text of its time (six
  significant digits); two runs that write the same file agree on all of these. The
  times themselves are not determined beyond their text.
\<close>

theorem C9_log_determines_events:
  assumes "run evs1 initial = Inr st1" and "run evs2 initial = Inr st2"
    and "handoverFile st1 = handoverFile st2"
  shows "map logged evs1 = map logged evs2"
proof -
  from run_csv_rows [OF assms(1)] obtain rows1 where r1:
    "csv_rows (handoverFile st1) = header_row # rows1" "filter kept rows1 = map entry evs1"
    by blast
  from run_csv_rows [OF assms(2)] obtain rows2 where r2:
    "csv_rows (handoverFile st2) = header_row # rows2" "filter kept rows2 = map entry evs2"
    by blast
  from r1(1) r2(1) assms(3) have "rows1 = rows2" by simp
  with r1(2) r2(2) have "map entry evs1 = map entry evs2" by simp
  then show ?thesis
    using run_parses [OF assms(1)] run_parses [OF assms(2)] by (intro map_entry_logged) auto
qed

theorem C9_log_determines_events_witness:
  "map logged [Assoc S0_Assoc AP_A 1] = map logged [Assoc S0_Assoc AP_A (1 + 1 / 2 ^ 20)]"
  using C9_log_determines_events [OF scenario_1 scenario_1' refl] .

text \<open>
  C9 as stated fails: an association at 1 s and the same association at
  \<open>1 + 2\<^sup>-\<^sup>2\<^sup>0\<close> s (a \<^verbatim>\<open>double\<close>, about 954 ns later) write the same file, so no reading
  of the file gives back the event list that generated it.
\<close>

theorem C9_roundtrip_counterexample:
  "run [Assoc S0_Assoc AP_A 1] initial = Inr after_first
   \<and> run [Assoc S0_Assoc AP_A (1 + 1 / 2 ^ 20)] initial = Inr after_first
   \<and> [Assoc S0_Assoc AP_A 1] \<noteq> [Assoc S0_Assoc AP_A (1 + 1 / 2 ^ 20)]"
  using scenario_1 scenario_1' by simp

section \<open>Properties of the flow statistics\<close>

lemma flowCsvLine_row: "flowCsvLine t flowId fs = csv_line (flow_row t flowId fs)"
  by (simp add: flowCsvLine_def csv_line_def flow_row_def)

lemma csv_rows_flowCsvLine: "csv_rows (flowCsvLine t flowId fs) = [flow_row t flowId fs]"
  unfolding flowCsvLine_row
  by (rule csv_rows_one) (simp add: well_formed_def flow_row_def)

lemma flowStatsLoop_flowCsv:
  "flowCsv (flowStatsLoop FindFlow stats out) =
     flowCsv out @ concat (map (\<lambda>(flowId, fs). flowCsvLine (FindFlow flowId) flowId fs) stats)"
  by (induction FindFlow stats out rule: flowStatsLoop.induct) simp_all

lemma flowStatsLoop_cout:
  "cout (flowStatsLoop FindFlow stats out) =
     cout out @ concat (map (\<lambda>(flowId, fs). flowSummary (FindFlow flowId) flowId fs) stats)"
  by (induction FindFlow stats out rule: flowStatsLoop.induct) simp_all

text \<open>
  C4, as amended. For every flow of the snapshot, the duration is the time of the last
  reception minus the time of the first transmission, and this value is what the
  Duration column (the twelfth field of the flow's line) holds, unclamped. For a flow
  whose time of last reception is still zero, as the monitor leaves it when nothing was
  received, the duration is minus the time of the first transmission: negative exactly
  when that time is positive.
\<close>

theorem C4_duration_unclamped:
  "duration fs = GetSeconds (timeLastRxPacket fs) - GetSeconds (timeFirstTxPacket fs)
   \<and> duration (fs\<lparr>timeLastRxPacket := 0\<rparr>) = - GetSeconds (timeFirstTxPacket fs)
   \<and> (duration (fs\<lparr>timeLastRxPacket := 0\<rparr>) < 0) = (0 < timeFirstTxPacket fs)
   \<and> (\<exists>row. csv_rows (flowCsvLine t flowId fs) = [row] \<and> length row = 13
         \<and> row ! 11 = showDouble (duration fs))
   \<and> flowCsv (flowStatsLoop FindFlow stats out) =
       flowCsv out @ concat (map (\<lambda>(flowId, fs). flowCsvLine (FindFlow flowId) flowId fs) stats)"
proof -
  have "\<exists>row. csv_rows (flowCsvLine t flowId fs) = [row] \<and> length row = 13
         \<and> row ! 11 = showDouble (duration fs)"
    unfolding csv_rows_flowCsvLine by (simp add: flow_row_def)
  moreover have "duration fs = GetSeconds (timeLastRxPacket fs) - GetSeconds (timeFirstTxPacket fs)"
    by (simp add: duration_def GetSeconds_def diff_divide_distrib)
  moreover have "duration (fs\<lparr>timeLastRxPacket := 0\<rparr>) = - GetSeconds (timeFirstTxPacket fs)"
    by (simp add: duration_def GetSeconds_def)
  moreover have "(duration (fs\<lparr>timeLastRxPacket := 0\<rparr>) < 0) = (0 < timeFirstTxPacket fs)"
    by (simp add: duration_def GetSeconds_def)
  ultimately show ?thesis
    using flowStatsLoop_flowCsv [of FindFlow stats out] by blast
qed

text \<open>
  C4 as stated fails: a flow that sent its first packet at 2 s and received nothing has
  the duration -2, and -2 is written to the Duration column.
\<close>

theorem C4_duration_counterexample:
  "rxPackets lost_flow = 0 \<and> rxBytes lost_flow = 0 \<and> timeLastRxPacket lost_flow = 0
   \<and> duration lost_flow = - 2
   \<and> flowCsvLine example_tuple 1 lost_flow = ''1,10.1.1.1,10.1.1.2,1,0,1,0,0,0,1024,0,-2,0'' @ endl"
proof -
  have d: "duration lost_flow = - 2"
    by (simp add: duration_def GetSeconds_def lost_flow_def)
  have t: "throughput lost_flow = 0"
    by (simp add: throughput_def d)
  have "flowCsvLine example_tuple 1 lost_flow = ''1,10.1.1.1,10.1.1.2,1,0,1,0,0,0,1024,0,-2,0'' @ endl"
    unfolding flowCsvLine_def d t
    by (simp add: lost_flow_def example_tuple_def showIpv4_def GetSeconds_def showDouble_neg2
        showDouble_0 show_nat.simps digit_char_def)
  with d show ?thesis by (simp add: lost_flow_def)
qed

text \<open>The six lines of the summary of a flow.\<close>

lemma plain_no_newline: "plain s \<Longrightarrow> CHR 0x0A \<notin> set s"
  by (simp add: plain_def)

lemma lines_of_last: "CHR 0x0A \<notin> set line \<Longrightarrow> lines_of (line @ endl) = [line]"
  using lines_of_line [of line "[]"] by simp

lemma lines_of_flowSummary:
  "lines_of (flowSummary t flowId fs) =
     [''Flux '' @ show_nat (unat flowId) @ '' ('' @ showIpv4 (sourceAddress t) @ '' -> ''
        @ showIpv4 (destinationAddress t) @ '')'',
      ''  Tx Packets: '' @ show_nat (unat (txPackets fs)),
      ''  Rx Packets: '' @ show_nat (unat (rxPackets fs)),
      ''  Lost Packets: '' @ show_nat (unat (lostPackets fs)),
      ''  Throughput: '' @ showDouble (throughput fs) @ '' kbps'',
      ''  Mean Delay: '' @ showDouble (meanDelay fs) @ '' s'']"
proof -
  define l1 where "l1 = ''Flux '' @ show_nat (unat flowId) @ '' ('' @ showIpv4 (sourceAddress t)
    @ '' -> '' @ showIpv4 (destinationAddress t) @ '')''"
  define l2 where "l2 = ''  Tx Packets: '' @ show_nat (unat (txPackets fs))"
  define l3 where "l3 = ''  Rx Packets: '' @ show_nat (unat (rxPackets fs))"
  define l4 where "l4 = ''  Lost Packets: '' @ show_nat (unat (lostPackets fs))"
  define l5 where "l5 = ''  Throughput: '' @ showDouble (throughput fs) @ '' kbps''"
  define l6 where "l6 = ''  Mean Delay: '' @ showDouble (meanDelay fs) @ '' s''"
  have n: "CHR 0x0A \<notin> set (show_nat k)" "CHR 0x0A \<notin> set (showIpv4 a)"
    "CHR 0x0A \<notin> set (showDouble v)" for k a v
    by (simp_all add: plain_no_newline)
  have nl: "CHR 0x0A \<notin> set l1" "CHR 0x0A \<notin> set l2" "CHR 0x0A \<notin> set l3"
    "CHR 0x0A \<notin> set l4" "CHR 0x0A \<notin> set l5" "CHR 0x0A \<notin> set l6"
    by (simp_all add: l1_def l2_def l3_def l4_def l5_def l6_def n)
  have "flowSummary t flowId fs =
      l1 @ endl @ l2 @ endl @ l3 @ endl @ l4 @ endl @ l5 @ endl @ l6 @ endl"
    by (simp add: flowSummary_def l1_def l2_def l3_def l4_def l5_def l6_def)
  then have "lines_of (flowSummary t flowId fs) = [l1, l2, l3, l4, l5, l6]"
    by (simp add: lines_of_line lines_of_last nl)
  then show ?thesis
    by (simp only: l1_def l2_def l3_def l4_def l5_def l6_def)
qed

lemma showDouble_900: "showDouble 900 = ''900''"
proof -
  have "sig6 900 = (900000, 2)"
    by (rule sig6_eval) (simp_all add: round_half_even_def)
  then show ?thesis by (simp add: show_eval)
qed

lemma replicate_2: "replicate 2 c = [c, c]"
  by (simp add: numeral_2_eq_2)

lemma showDouble_0001: "showDouble (1 / 1000) = ''0.001''"
proof -
  have "sig6 (1 / 1000) = (100000, - 3)"
    by (rule sig6_eval) (simp_all add: round_half_even_def)
  then show ?thesis by (simp add: show_eval replicate_2)
qed

text \<open>
  C5. For every flow of the snapshot, the throughput is 0 when the duration is at most
  0 and \<open>rxBytes * 8 / 1000 / duration\<close> otherwise, and the mean delay is 0 when no packet
  was received and \<open>delaySum / rxPackets\<close> otherwise; a flow without received packets and
  bytes has both equal to 0. The throughput is the thirteenth field of the flow's line in
  the file and the fifth line of its summary on the console, and the mean delay is the
  sixth line of the summary. The loop is a total function: it handles every flow and
  appends one line to the file and one summary to the console for each.
\<close>

theorem C5_throughput_and_mean_delay:
  "throughput fs =
     (if duration fs \<le> 0 then 0 else real (unat (rxBytes fs)) * 8 / 1000 / duration fs)
   \<and> meanDelay fs =
     (if rxPackets fs = 0 then 0 else GetSeconds (delaySum fs) / real (unat (rxPackets fs)))
   \<and> (rxPackets fs = 0 \<and> rxBytes fs = 0 \<longrightarrow> throughput fs = 0 \<and> meanDelay fs = 0)
   \<and> (\<exists>row. csv_rows (flowCsvLine t flowId fs) = [row] \<and> length row = 13
         \<and> row ! 12 = showDouble (throughput fs))
   \<and> lines_of (flowSummary t flowId fs) =
       [''Flux '' @ show_nat (unat flowId) @ '' ('' @ showIpv4 (sourceAddress t) @ '' -> ''
          @ showIpv4 (destinationAddress t) @ '')'',
        ''  Tx Packets: '' @ show_nat (unat (txPackets fs)),
        ''  Rx Packets: '' @ show_nat (unat (rxPackets fs)),
        ''  Lost Packets: '' @ show_nat (unat (lostPackets fs)),
        ''  Throughput: '' @ showDouble (throughput fs) @ '' kbps'',
        ''  Mean Delay: '' @ showDouble (meanDelay fs) @ '' s'']
   \<and> flowCsv (flowStatsLoop FindFlow stats out) =
       flowCsv out @ concat (map (\<lambda>(flowId, fs). flowCsvLine (FindFlow flowId) flowId fs) stats)
   \<and> cout (flowStatsLoop FindFlow stats out) =
       cout out @ concat (map (\<lambda>(flowId, fs). flowSummary (FindFlow flowId) flowId fs) stats)"
proof -
  have "\<exists>row. csv_rows (flowCsvLine t flowId fs) = [row] \<and> length row = 13
         \<and> row ! 12 = showDouble (throughput fs)"
    unfolding csv_rows_flowCsvLine by (simp add: flow_row_def)
  moreover have "throughput fs =
     (if duration fs \<le> 0 then 0 else real (unat (rxBytes fs)) * 8 / 1000 / duration fs)"
    by (simp add: throughput_def)
  moreover have "meanDelay fs =
     (if rxPackets fs = 0 then 0 else GetSeconds (delaySum fs) / real (unat (rxPackets fs)))"
    by (simp add: meanDelay_def unat_gt_0)
  moreover have "rxPackets fs = 0 \<and> rxBytes fs = 0 \<longrightarrow> throughput fs = 0 \<and> meanDelay fs = 0"
    by (simp add: throughput_def meanDelay_def)
  ultimately show ?thesis
    using flowStatsLoop_flowCsv [of FindFlow stats out] flowStatsLoop_cout [of FindFlow stats out]
      lines_of_flowSummary [of t flowId fs]
    by (intro conjI) assumption+
qed

theorem C5_throughput_and_mean_delay_witness:
  "throughput lost_flow = 0 \<and> meanDelay lost_flow = 0
   \<and> throughput example_flow = 900 \<and> meanDelay example_flow = 1 / 1000
   \<and> lines_of (flowSummary example_tuple 1 lost_flow) ! 5 = ''  Mean Delay: 0 s''
   \<and> lines_of (flowSummary example_tuple 1 example_flow) ! 4 = ''  Throughput: 900 kbps''
   \<and> lines_of (flowSummary example_tuple 1 example_flow) ! 5 = ''  Mean Delay: 0.001 s''"
proof -
  have "rxPackets lost_flow = 0 \<and> rxBytes lost_flow = 0"
    by (simp add: lost_flow_def)
  with C5_throughput_and_mean_delay [of lost_flow]
  have lost: "throughput lost_flow = 0 \<and> meanDelay lost_flow = 0" by blast
  have "duration example_flow = 8"
    by (simp add: duration_def GetSeconds_def example_flow_def)
  with C5_throughput_and_mean_delay [of example_flow]
  have ex: "throughput example_flow = 900 \<and> meanDelay example_flow = 1 / 1000"
    by (simp add: example_flow_def GetSeconds_def)
  from C5_throughput_and_mean_delay [of lost_flow example_tuple 1]
  have "lines_of (flowSummary example_tuple 1 lost_flow) ! 5
      = ''  Mean Delay: '' @ showDouble (meanDelay lost_flow) @ '' s''"
    by simp
  with lost have l5: "lines_of (flowSummary example_tuple 1 lost_flow) ! 5 = ''  Mean Delay: 0 s''"
    by (simp add: showDouble_0)
  from C5_throughput_and_mean_delay [of example_flow example_tuple 1]
  have e4: "lines_of (flowSummary example_tuple 1 example_flow) ! 4
      = ''  Throughput: '' @ showDouble (throughput example_flow) @ '' kbps''"
    and e5: "lines_of (flowSummary example_tuple 1 example_flow) ! 5
      = ''  Mean Delay: '' @ showDouble (meanDelay example_flow) @ '' s''"
    by simp_all
  have e4': "lines_of (flowSummary example_tuple 1 example_flow) ! 4 = ''  Throughput: 900 kbps''"
    unfolding e4 conjunct1 [OF ex] showDouble_900 by simp
  have e5': "lines_of (flowSummary example_tuple 1 example_flow) ! 5 = ''  Mean Delay: 0.001 s''"
    unfolding e5 conjunct2 [OF ex] showDouble_0001 by simp
  show ?thesis
    by (intro conjI) (rule conjunct1 [OF lost] conjunct2 [OF lost] conjunct1 [OF ex]
        conjunct2 [OF ex] l5 e4' e5')+
qed

end
